theory Spec2Isabelle
  imports Main "HOL-Library.Word" "HOL-Library.Sublist"
begin

section \<open>The OpenThread instance (src/core/common/instance.cpp)\<close>

text \<open>
  The file is modelled for the build it is written for when the claims' functions exist:
  a single instance (\<^verbatim>\<open>OPENTHREAD_ENABLE_MULTIPLE_INSTANCES\<close> is 0, so
  \<^verbatim>\<open>InitSingle\<close> and \<^verbatim>\<open>Get\<close> are compiled) of an MTD or FTD
  (so \<^verbatim>\<open>ErasePersistentInfo\<close> and the scan callbacks are compiled), without the
  vendor extension.

  Pointers to data (\<^verbatim>\<open>void *\<close>, \<^verbatim>\<open>otActiveScanResult *\<close>,
  \<^verbatim>\<open>otEnergyScanResult *\<close>) are addresses, \<^verbatim>\<open>NULL\<close> being address 0.
\<close>

type_synonym ptr = nat

definition NULL :: ptr where
  "NULL = 0"

text \<open>
  The values of \<^verbatim>\<open>otError\<close> that the two source files name
  (\<^verbatim>\<open>instance.cpp\<close> returns the first and the third).
\<close>

datatype otError =
    OT_ERROR_NONE
  | OT_ERROR_INVALID_ARGS
  | OT_ERROR_INVALID_STATE
  | OT_ERROR_NO_BUFS

text \<open>
  A function pointer (\<^verbatim>\<open>otHandleActiveScanResult\<close>,
  \<^verbatim>\<open>otHandleEnergyScanResult\<close>: both take the result pointer and the context
  pointer and return nothing) is \<open>None\<close> when it is \<^verbatim>\<open>NULL\<close> and
  \<open>Some h\<close> when it points to the function \<open>h\<close>. What the pointed-to function
  does is the application's business: it is a state transformer on \<open>'w\<close>, everything
  outside the fields that \<^verbatim>\<open>instance.cpp\<close> itself reads and writes.
\<close>

type_synonym 'w handler = "ptr \<Rightarrow> ptr \<Rightarrow> 'w \<Rightarrow> 'w"

text \<open>
  The instance. The fields that \<^verbatim>\<open>instance.cpp\<close> reads and writes itself keep
  their names. The member objects whose classes are defined in other files (the schedulers,
  the heap, \<^verbatim>\<open>mSettings\<close> with the platform's non-volatile store behind it,
  \<^verbatim>\<open>mThreadNetif\<close> with the MLE router inside, ...) are one opaque component
  \<open>others\<close>.
\<close>

record 'w Instance =
  others :: 'w
  mActiveScanCallback :: "'w handler option"
  mActiveScanCallbackContext :: ptr
  mEnergyScanCallback :: "'w handler option"
  mEnergyScanCallbackContext :: ptr
  mIsInitialized :: bool

text \<open>
  The code of the other classes is not in \<^verbatim>\<open>instance.cpp\<close>: each function of
  theirs that the file calls is a parameter, and so are the type \<^verbatim>\<open>otDeviceRole\<close>
  and its value \<^verbatim>\<open>OT_DEVICE_ROLE_DISABLED\<close>.
  \<open>member_constructors\<close> stands for the member initialisers of the constructor
  other than the five fields above.
\<close>

record ('w, 'role) collaborators =
  member_constructors :: "'w \<Rightarrow> 'w"
  Settings_Init :: "'w \<Rightarrow> 'w"
  Settings_Wipe :: "'w \<Rightarrow> 'w"
  MleRouter_Restore :: "'w \<Rightarrow> 'w"
  MleRouter_GetRole :: "'w \<Rightarrow> 'role"
  OT_DEVICE_ROLE_DISABLED :: 'role

text \<open>\<^verbatim>\<open>Instance::Instance(void)\<close>, run by placement new on the raw storage.\<close>

definition Instance_ctor :: "('w, 'role) collaborators \<Rightarrow> 'w Instance \<Rightarrow> 'w Instance" where
  "Instance_ctor E raw =
     \<lparr> others = member_constructors E (others raw),
       mActiveScanCallback = None,
       mActiveScanCallbackContext = NULL,
       mEnergyScanCallback = None,
       mEnergyScanCallbackContext = NULL,
       mIsInitialized = False \<rparr>"

text \<open>\<^verbatim>\<open>Instance::AfterInit\<close>: the flag first, then the settings, then the MLE router.\<close>

definition AfterInit :: "('w, 'role) collaborators \<Rightarrow> 'w Instance \<Rightarrow> 'w Instance" where
  "AfterInit E i =
     (let i1 = i\<lparr>mIsInitialized := True\<rparr>;
          i2 = i1\<lparr>others := Settings_Init E (others i1)\<rparr>;
          i3 = i2\<lparr>others := MleRouter_Restore E (others i2)\<rparr>
      in i3)"

text \<open>
  \<^verbatim>\<open>Instance::Get\<close> returns a reference to the raw storage \<^verbatim>\<open>gInstanceRaw\<close>.
  The storage is the state that is passed around: \<open>Get\<close> reads it as an instance.
\<close>

definition Get :: "'w Instance \<Rightarrow> 'w Instance" where
  "Get gInstanceRaw = gInstanceRaw"

text \<open>
  \<^verbatim>\<open>Instance::InitSingle\<close>. \<^verbatim>\<open>VerifyOrExit(c)\<close> jumps to
  \<^verbatim>\<open>exit\<close> when \<open>c\<close> is false. On both paths the reference returned is
  to \<^verbatim>\<open>gInstanceRaw\<close>; the model returns the content of that storage after the call.
\<close>

definition InitSingle :: "('w, 'role) collaborators \<Rightarrow> 'w Instance \<Rightarrow> 'w Instance" where
  "InitSingle E gInstanceRaw =
     (let instance = Get gInstanceRaw in
      if \<not> (mIsInitialized instance = False) then instance
      else AfterInit E (Instance_ctor E gInstanceRaw))"

text \<open>
  \<^verbatim>\<open>Instance::ErasePersistentInfo\<close> returns the error and leaves the instance in
  the state that is the second component.
\<close>

definition ErasePersistentInfo ::
  "('w, 'role) collaborators \<Rightarrow> 'w Instance \<Rightarrow> otError \<times> 'w Instance" where
  "ErasePersistentInfo E i =
     (if \<not> (MleRouter_GetRole E (others i) = OT_DEVICE_ROLE_DISABLED E)
      then (OT_ERROR_INVALID_STATE, i)
      else (OT_ERROR_NONE, i\<lparr>others := Settings_Wipe E (others i)\<rparr>))"

definition RegisterActiveScanCallback :: "'w handler option \<Rightarrow> ptr \<Rightarrow> 'w Instance \<Rightarrow> 'w Instance" where
  "RegisterActiveScanCallback aCallback aContext i =
     i\<lparr>mActiveScanCallback := aCallback, mActiveScanCallbackContext := aContext\<rparr>"

definition RegisterEnergyScanCallback :: "'w handler option \<Rightarrow> ptr \<Rightarrow> 'w Instance \<Rightarrow> 'w Instance" where
  "RegisterEnergyScanCallback aCallback aContext i =
     i\<lparr>mEnergyScanCallback := aCallback, mEnergyScanCallbackContext := aContext\<rparr>"

text \<open>
  A call through a function pointer. C++ gives a call through a null pointer no meaning;
  the model makes it the fault \<open>NullFunctionCall\<close>, so that a function which could
  make such a call has a result that shows it.
\<close>

datatype fault = NullFunctionCall

definition call_through :: "'w handler option \<Rightarrow> ptr \<Rightarrow> ptr \<Rightarrow> 'w \<Rightarrow> fault + 'w" where
  "call_through f aResult aContext w =
     (case f of None \<Rightarrow> Inl NullFunctionCall | Some h \<Rightarrow> Inr (h aResult aContext w))"

text \<open>
  \<^verbatim>\<open>Instance::InvokeActiveScanCallback\<close> and
  \<^verbatim>\<open>Instance::InvokeEnergyScanCallback\<close> are \<^verbatim>\<open>const\<close>: the only
  state they can change is what the handler changes.
\<close>

definition InvokeActiveScanCallback :: "'w Instance \<Rightarrow> ptr \<Rightarrow> fault + 'w Instance" where
  "InvokeActiveScanCallback i aResult =
     (if mActiveScanCallback i \<noteq> None
      then (case call_through (mActiveScanCallback i) aResult (mActiveScanCallbackContext i) (others i) of
              Inl e \<Rightarrow> Inl e
            | Inr w \<Rightarrow> Inr (i\<lparr>others := w\<rparr>))
      else Inr i)"

definition InvokeEnergyScanCallback :: "'w Instance \<Rightarrow> ptr \<Rightarrow> fault + 'w Instance" where
  "InvokeEnergyScanCallback i aResult =
     (if mEnergyScanCallback i \<noteq> None
      then (case call_through (mEnergyScanCallback i) aResult (mEnergyScanCallbackContext i) (others i) of
              Inl e \<Rightarrow> Inl e
            | Inr w \<Rightarrow> Inr (i\<lparr>others := w\<rparr>))
      else Inr i)"

subsection \<open>Concrete inputs for the instance\<close>

text \<open>
  Collaborators over a counter, each of which changes it in a way of its own, so that a run
  of any of them shows in the state. The role is read off the counter: 0 is disabled.
\<close>

definition E0 :: "(nat, nat) collaborators" where
  "E0 = \<lparr> member_constructors = (\<lambda>w. 0),
          Settings_Init = (\<lambda>w. w + 1),
          Settings_Wipe = (\<lambda>w. w + 100),
          MleRouter_Restore = (\<lambda>w. 2 * w),
          MleRouter_GetRole = (\<lambda>w. w mod 3),
          OT_DEVICE_ROLE_DISABLED = 0 \<rparr>"

text \<open>Zeroed raw storage, as \<^verbatim>\<open>gInstanceRaw\<close> is before the first call.\<close>

definition raw0 :: "nat Instance" where
  "raw0 = \<lparr> others = 7, mActiveScanCallback = None, mActiveScanCallbackContext = 0,
            mEnergyScanCallback = None, mEnergyScanCallbackContext = 0,
            mIsInitialized = False \<rparr>"

text \<open>An initialised instance that has been used since: a handler is registered.\<close>

definition used0 :: "nat Instance" where
  "used0 = \<lparr> others = 9, mActiveScanCallback = Some (\<lambda>r c w. w + r + c),
             mActiveScanCallbackContext = 5,
             mEnergyScanCallback = None, mEnergyScanCallbackContext = 0,
             mIsInitialized = True \<rparr>"

section \<open>The MQTT-SN client interface (include/openthread/mqttsn.h)\<close>

text \<open>
  The header declares the types and the operations of the client. The types below are the
  header's; the bodies of the operations are not part of the two source files.
\<close>

text \<open>
  \<^verbatim>\<open>enum otMqttsnReturnCode\<close>, with the number each enumerator stands for. The
  gateway returns the first four; \<^verbatim>\<open>kCodeTimeout\<close> is the client's own.
\<close>

datatype otMqttsnReturnCode =
    kCodeAccepted
  | kCodeRejectedCongestion
  | kCodeRejectedTopicId
  | kCodeRejectedNotSupported
  | kCodeTimeout

fun otMqttsnReturnCode_value :: "otMqttsnReturnCode \<Rightarrow> int" where
  "otMqttsnReturnCode_value kCodeAccepted = 0"
| "otMqttsnReturnCode_value kCodeRejectedCongestion = 1"
| "otMqttsnReturnCode_value kCodeRejectedTopicId = 2"
| "otMqttsnReturnCode_value kCodeRejectedNotSupported = 3"
| "otMqttsnReturnCode_value kCodeTimeout = - 1"

text \<open>
  \<^verbatim>\<open>struct otMqttsnConfig\<close>. The address is the 16 bytes of an
  \<^verbatim>\<open>otIp6Address\<close>; the client id is the string that \<^verbatim>\<open>mClientId\<close>
  points to.
\<close>

record otMqttsnConfig =
  mAddress :: "128 word"
  mPort :: "16 word"
  mClientId :: string
  mKeepAlive :: "16 word"
  mCleanSession :: bool
  mRetransmissionTimeout :: "32 word"
  mRetransmissionCount :: "8 word"

section \<open>The transaction table of the MQTT-SN client\<close>

text \<open>
  Modelled from the spec: the Transaction Table (Insert, Resolve, Tick and the allocation of
  message ids), whose code is in neither source file. The definitions of this section
  follow sections 3 and 4.4 of the specification, over the header's types above. Time is
  the millisecond count \<open>now\<close> that the caller passes in; the capacity of the table,
  which the specification leaves to the implementation, is a parameter.
\<close>

text \<open>Modelled from the spec: the kind of a transaction, \<open>{Connect, Register, Subscribe}\<close>.\<close>

datatype TransactionKind = Connect | Register | Subscribe

type_synonym octet = "8 word"

text \<open>
  Modelled from the spec: a Transaction, one pending request awaiting the gateway's
  acknowledgment. The callback and its context are opaque pointers supplied by the caller.
\<close>

record Transaction =
  messageId :: "16 word"
  kind :: TransactionKind
  retriesLeft :: nat
  deadline :: nat
  payload :: "octet list"
  callback :: ptr
  callbackContext :: ptr

text \<open>
  Modelled from the spec: the table, the pending transactions in the order of their
  insertion, with the 16-bit counter \<open>nextMessageId\<close> that message ids are drawn from.
\<close>

record TransactionTable =
  pending :: "Transaction list"
  nextMessageId :: "16 word"

text \<open>Modelled from the spec: the table of a fresh session; the counter skips zero, so it starts at 1.\<close>

definition empty_table :: TransactionTable where
  "empty_table = \<lparr> pending = [], nextMessageId = 1 \<rparr>"

text \<open>
  Modelled from the spec: the step of the message-id counter, "monotonically increasing
  with 16-bit wraparound, skipping zero". The addition is that of 16-bit words.
\<close>

definition next_id :: "16 word \<Rightarrow> 16 word" where
  "next_id m = (if m + 1 = 0 then 1 else m + 1)"

text \<open>Modelled from the spec: the error of an insertion that finds no room, \<open>ResourceExhausted\<close>.\<close>

datatype InsertError = ResourceExhausted

text \<open>
  Modelled from the spec: \<open>Insert(kind, payload, callback, context) -> messageId |
  ResourceExhausted\<close>. The table is bounded, and a newly allocated id that collides with
  a pending one is treated as exhaustion; a failed insertion changes nothing. The new
  transaction has \<open>retriesLeft\<close> from \<open>config.mRetransmissionCount\<close> and
  \<open>deadline = now + config.mRetransmissionTimeout\<close>.
\<close>

definition Insert ::
  "nat \<Rightarrow> otMqttsnConfig \<Rightarrow> nat \<Rightarrow> TransactionKind \<Rightarrow> octet list \<Rightarrow> ptr \<Rightarrow> ptr
     \<Rightarrow> TransactionTable \<Rightarrow> (InsertError + 16 word) \<times> TransactionTable" where
  "Insert capacity cfg now k p cb c t =
     (if capacity \<le> length (pending t) then (Inl ResourceExhausted, t)
      else let mid = nextMessageId t in
        if mid \<in> set (map messageId (pending t)) then (Inl ResourceExhausted, t)
        else (Inr mid,
              t\<lparr> pending := pending t @
                    [\<lparr> messageId = mid, kind = k,
                       retriesLeft = unat (mRetransmissionCount cfg),
                       deadline = now + unat (mRetransmissionTimeout cfg),
                       payload = p, callback = cb, callbackContext = c \<rparr>],
                 nextMessageId := next_id mid \<rparr>))"

text \<open>
  Modelled from the spec: \<open>Resolve(messageId) -> Transaction | none\<close>, which removes
  the transaction it returns.
\<close>

definition Resolve :: "16 word \<Rightarrow> TransactionTable \<Rightarrow> Transaction option \<times> TransactionTable" where
  "Resolve mid t =
     (case find (\<lambda>x. messageId x = mid) (pending t) of
        None \<Rightarrow> (None, t)
      | Some x \<Rightarrow> (Some x, t\<lparr> pending := filter (\<lambda>y. messageId y \<noteq> mid) (pending t) \<rparr>))"

text \<open>
  Modelled from the spec: what the client does to the outside, a transport send of a
  payload or the invocation of a callback with its context and a return code. An event is
  such an action together with the message id of the transaction it belongs to.
\<close>

datatype action = Transmit "octet list" | Invoke ptr ptr otMqttsnReturnCode

type_synonym event = "16 word \<times> action"

text \<open>
  Modelled from the spec: what \<open>Tick(now)\<close> does to one pending transaction. "For every
  pending transaction whose deadline is at most now: if retriesLeft > 0, decrement,
  retransmit the stored payload unchanged, and advance deadline = now +
  retransmissionTimeout; if retriesLeft == 0, remove the transaction and invoke its
  callback with the timeout return code and no further transport action."
\<close>

definition tick_entry :: "otMqttsnConfig \<Rightarrow> nat \<Rightarrow> Transaction \<Rightarrow> Transaction option \<times> event list" where
  "tick_entry cfg now x =
     (if deadline x \<le> now then
        (if 0 < retriesLeft x
         then (Some (x\<lparr> retriesLeft := retriesLeft x - 1,
                         deadline := now + unat (mRetransmissionTimeout cfg) \<rparr>),
               [(messageId x, Transmit (payload x))])
         else (None, [(messageId x, Invoke (callback x) (callbackContext x) kCodeTimeout)]))
      else (Some x, []))"

text \<open>Modelled from the spec: the loop of \<open>Tick\<close> over the pending transactions, in order.\<close>

fun tick_entries :: "otMqttsnConfig \<Rightarrow> nat \<Rightarrow> Transaction list \<Rightarrow> Transaction list \<times> event list" where
  "tick_entries cfg now [] = ([], [])"
| "tick_entries cfg now (x # xs) =
     (let (x', ev) = tick_entry cfg now x;
          (xs', evs) = tick_entries cfg now xs
      in (case x' of None \<Rightarrow> xs' | Some y \<Rightarrow> y # xs', ev @ evs))"

text \<open>Modelled from the spec: \<open>Tick(now)\<close>, returning the table and the events of this tick.\<close>

definition Tick :: "otMqttsnConfig \<Rightarrow> nat \<Rightarrow> TransactionTable \<Rightarrow> TransactionTable \<times> event list" where
  "Tick cfg now t =
     (let (xs, evs) = tick_entries cfg now (pending t) in (t\<lparr> pending := xs \<rparr>, evs))"

text \<open>
  Modelled from the spec: the path of a request (Connect, Register or Subscribe) once it is
  encoded, "Transaction Table records pending entry, then transport send". Nothing is sent
  when the insertion fails.
\<close>

definition SendRequest ::
  "nat \<Rightarrow> otMqttsnConfig \<Rightarrow> nat \<Rightarrow> TransactionKind \<Rightarrow> octet list \<Rightarrow> ptr \<Rightarrow> ptr
     \<Rightarrow> TransactionTable \<Rightarrow> (InsertError + 16 word) \<times> TransactionTable \<times> event list" where
  "SendRequest capacity cfg now k p cb c t =
     (case Insert capacity cfg now k p cb c t of
        (Inl e, t') \<Rightarrow> (Inl e, t', [])
      | (Inr mid, t') \<Rightarrow> (Inr mid, t', [(mid, Transmit p)]))"

subsection \<open>Runs of the table\<close>

text \<open>
  Modelled from the spec: the owning runtime invokes \<open>Tick\<close> periodically. Here it
  does so at each of the given times in turn, and nothing else happens in between: no
  acknowledgment arrives. The events are collected in order.
\<close>

fun Ticks :: "otMqttsnConfig \<Rightarrow> nat list \<Rightarrow> TransactionTable \<Rightarrow> TransactionTable \<times> event list" where
  "Ticks cfg [] t = (t, [])"
| "Ticks cfg (now # nows) t =
     (let (t1, ev) = Tick cfg now t;
          (t2, evs) = Ticks cfg nows t1
      in (t2, ev @ evs))"

text \<open>
  Modelled from the spec: the times of \<open>K\<close> ticks of period \<open>d\<close> after
  \<open>start\<close>, that is \<open>start + d, ..., start + K * d\<close> ("externally driven, e.g.
  every 100 ms").
\<close>

fun periodic :: "nat \<Rightarrow> nat \<Rightarrow> nat \<Rightarrow> nat list" where
  "periodic start d 0 = []"
| "periodic start d (Suc K) = (start + d) # periodic (start + d) d K"

text \<open>The actions, in order, that belong to the transaction with a given message id.\<close>

definition actions_of :: "16 word \<Rightarrow> event list \<Rightarrow> action list" where
  "actions_of mid evs = map snd (filter (\<lambda>e. fst e = mid) evs)"

text \<open>
  Modelled from the spec: the states of the table that its three operations can produce
  from the table of a fresh session, with any arguments and in any order.
\<close>

inductive reachable :: "nat \<Rightarrow> TransactionTable \<Rightarrow> bool" for capacity :: nat where
  initial: "reachable capacity empty_table"
| insert: "reachable capacity t \<Longrightarrow> reachable capacity (snd (Insert capacity cfg now k p cb c t))"
| resolve: "reachable capacity t \<Longrightarrow> reachable capacity (snd (Resolve mid t))"
| tick: "reachable capacity t \<Longrightarrow> reachable capacity (fst (Tick cfg now t))"

subsection \<open>Notions used in the proofs\<close>

text \<open>The table restricted to the transactions with one message id.\<close>

definition project :: "16 word \<Rightarrow> TransactionTable \<Rightarrow> TransactionTable" where
  "project mid t = t\<lparr> pending := filter (\<lambda>x. messageId x = mid) (pending t) \<rparr>"

text \<open>
  What remains to happen to a pending transaction that is never acknowledged: one
  retransmission per retry left, then the callback with the timeout code.
\<close>

definition outcome :: "Transaction \<Rightarrow> action list" where
  "outcome x = replicate (retriesLeft x) (Transmit (payload x))
                 @ [Invoke (callback x) (callbackContext x) kCodeTimeout]"

definition table_inv :: "nat \<Rightarrow> TransactionTable \<Rightarrow> bool" where
  "table_inv capacity t \<longleftrightarrow>
     distinct (map messageId (pending t)) \<and> length (pending t) \<le> capacity
     \<and> 0 \<notin> set (map messageId (pending t)) \<and> nextMessageId t \<noteq> 0"

subsection \<open>Concrete inputs for the table\<close>

text \<open>Scenario C of the specification: three retransmissions, 250 ms apart.\<close>

definition cfg0 :: otMqttsnConfig where
  "cfg0 = \<lparr> mAddress = 1, mPort = 1883, mClientId = ''dev1'', mKeepAlive = 60,
            mCleanSession = True, mRetransmissionTimeout = 250, mRetransmissionCount = 3 \<rparr>"

text \<open>A table of capacity 2 with a subscription pending since time 900.\<close>

definition table_a :: TransactionTable where
  "table_a = snd (Insert 2 cfg0 900 Subscribe [9] 33 44 empty_table)"

text \<open>The same table after a registration has been requested at time 1000: it is full.\<close>

definition table_b :: TransactionTable where
  "table_b = snd (Insert 2 cfg0 1000 Register [1, 2, 3] 11 22 table_a)"

text \<open>A connect request with message id 1 that stays pending while the counter goes round.\<close>

definition entry1 :: Transaction where
  "entry1 = \<lparr> messageId = 1, kind = Connect, retriesLeft = 3, deadline = 1250,
               payload = [4], callback = 11, callbackContext = 22 \<rparr>"

definition table_c :: TransactionTable where
  "table_c = \<lparr> pending = [entry1], nextMessageId = 1 \<rparr>"

section \<open>Theorems about the instance\<close>

lemma AfterInit_initialized: "mIsInitialized (AfterInit E i)"
  by (simp add: AfterInit_def Let_def)

lemma InitSingle_initialized: "mIsInitialized (InitSingle E g)"
  by (simp add: InitSingle_def Get_def Let_def AfterInit_initialized)

text \<open>
  Claim C8. \<^verbatim>\<open>Instance::InitSingle\<close> is idempotent. When the instance in the raw
  storage is already initialised, the call leaves the storage as it was, whatever the
  constructor and \<^verbatim>\<open>AfterInit\<close> would have done to it: neither runs. A call
  always leaves an initialised instance, so a second call changes nothing.
\<close>

theorem InitSingle_idempotent:
  "(mIsInitialized g \<longrightarrow> InitSingle E g = g)
   \<and> InitSingle E (InitSingle E g) = InitSingle E g"
proof
  show "mIsInitialized g \<longrightarrow> InitSingle E g = g"
    by (simp add: InitSingle_def Get_def)
next
  have "mIsInitialized (InitSingle E g)"
    by (rule InitSingle_initialized)
  then show "InitSingle E (InitSingle E g) = InitSingle E g"
    by (simp add: InitSingle_def [of E "InitSingle E g"] Get_def)
qed

theorem InitSingle_idempotent_witness:
  "mIsInitialized used0 \<and> InitSingle E0 used0 = used0
   \<and> AfterInit E0 (Instance_ctor E0 used0) \<noteq> used0
   \<and> InitSingle E0 raw0 \<noteq> raw0
   \<and> InitSingle E0 (InitSingle E0 raw0) = InitSingle E0 raw0"
proof -
  have a: "mIsInitialized used0"
    by (simp add: used0_def)
  have b: "AfterInit E0 (Instance_ctor E0 used0) \<noteq> used0"
    by (simp add: AfterInit_def Instance_ctor_def E0_def used0_def Let_def)
  have c: "InitSingle E0 raw0 \<noteq> raw0"
    by (simp add: InitSingle_def Get_def AfterInit_def Instance_ctor_def E0_def raw0_def Let_def)
  from InitSingle_idempotent [of used0 E0] InitSingle_idempotent [of raw0 E0] a b c
  show ?thesis by simp
qed

text \<open>
  Claim C9. \<^verbatim>\<open>Instance::ErasePersistentInfo\<close> returns
  \<^verbatim>\<open>OT_ERROR_NONE\<close> exactly when the MLE role is disabled, and then the settings
  have been wiped (once, and nothing else has changed); for every other role it returns
  \<^verbatim>\<open>OT_ERROR_INVALID_STATE\<close> and the instance, the settings included, is as
  it was.
\<close>

theorem ErasePersistentInfo_role:
  "(fst (ErasePersistentInfo E i) = OT_ERROR_NONE
      \<longleftrightarrow> MleRouter_GetRole E (others i) = OT_DEVICE_ROLE_DISABLED E)
   \<and> (MleRouter_GetRole E (others i) = OT_DEVICE_ROLE_DISABLED E \<longrightarrow>
        ErasePersistentInfo E i = (OT_ERROR_NONE, i\<lparr>others := Settings_Wipe E (others i)\<rparr>))
   \<and> (MleRouter_GetRole E (others i) \<noteq> OT_DEVICE_ROLE_DISABLED E \<longrightarrow>
        ErasePersistentInfo E i = (OT_ERROR_INVALID_STATE, i))"
  by (simp add: ErasePersistentInfo_def)

theorem ErasePersistentInfo_role_witness:
  "MleRouter_GetRole E0 (others used0) = OT_DEVICE_ROLE_DISABLED E0
   \<and> ErasePersistentInfo E0 used0 = (OT_ERROR_NONE, used0\<lparr>others := 109\<rparr>)
   \<and> MleRouter_GetRole E0 (others raw0) \<noteq> OT_DEVICE_ROLE_DISABLED E0
   \<and> ErasePersistentInfo E0 raw0 = (OT_ERROR_INVALID_STATE, raw0)"
proof -
  have a: "MleRouter_GetRole E0 (others used0) = OT_DEVICE_ROLE_DISABLED E0"
    by (simp add: E0_def used0_def)
  have b: "MleRouter_GetRole E0 (others raw0) \<noteq> OT_DEVICE_ROLE_DISABLED E0"
    by (simp add: E0_def raw0_def)
  have c: "Settings_Wipe E0 (others used0) = 109"
    by (simp add: E0_def used0_def)
  from ErasePersistentInfo_role [of E0 used0] ErasePersistentInfo_role [of E0 raw0] a b c
  show ?thesis by simp
qed

text \<open>
  Claim C10. \<^verbatim>\<open>Instance::InvokeActiveScanCallback\<close> and
  \<^verbatim>\<open>Instance::InvokeEnergyScanCallback\<close> never call through a null function
  pointer, whatever the instance holds; when the stored callback is \<^verbatim>\<open>NULL\<close>
  the invocation does nothing.
\<close>

theorem Invoke_never_null:
  "InvokeActiveScanCallback i aResult \<noteq> Inl NullFunctionCall
   \<and> InvokeEnergyScanCallback i aResult \<noteq> Inl NullFunctionCall
   \<and> (mActiveScanCallback i = None \<longrightarrow> InvokeActiveScanCallback i aResult = Inr i)
   \<and> (mEnergyScanCallback i = None \<longrightarrow> InvokeEnergyScanCallback i aResult = Inr i)"
  by (auto simp: InvokeActiveScanCallback_def InvokeEnergyScanCallback_def call_through_def
           split: option.splits)

theorem Invoke_never_null_witness:
  "mActiveScanCallback (Instance_ctor E0 raw0) = None
   \<and> InvokeActiveScanCallback (Instance_ctor E0 raw0) 3 = Inr (Instance_ctor E0 raw0)
   \<and> mEnergyScanCallback used0 = None
   \<and> InvokeEnergyScanCallback used0 3 = Inr used0
   \<and> InvokeActiveScanCallback used0 3 = Inr (used0\<lparr>others := 17\<rparr>)
   \<and> call_through (mEnergyScanCallback used0) 3 (mEnergyScanCallbackContext used0) (others used0)
       = Inl NullFunctionCall"
proof -
  have a: "mActiveScanCallback (Instance_ctor E0 raw0) = None"
    by (simp add: Instance_ctor_def)
  have b: "mEnergyScanCallback used0 = None"
    by (simp add: used0_def)
  have c: "InvokeActiveScanCallback used0 3 = Inr (used0\<lparr>others := 17\<rparr>)"
    by (simp add: InvokeActiveScanCallback_def call_through_def used0_def)
  have d: "call_through (mEnergyScanCallback used0) 3 (mEnergyScanCallbackContext used0) (others used0)
       = Inl NullFunctionCall"
    by (simp add: call_through_def used0_def)
  from Invoke_never_null [of "Instance_ctor E0 raw0" 3] Invoke_never_null [of used0 3] a b c d
  show ?thesis by simp
qed

section \<open>Theorems about the transaction table\<close>

subsection \<open>One transaction at a time\<close>

lemma tick_entry_tag:
  "e \<in> set (snd (tick_entry cfg now x)) \<Longrightarrow> fst e = messageId x"
  by (auto simp: tick_entry_def split: if_splits)

lemma tick_entry_keeps_id:
  "fst (tick_entry cfg now x) = Some y \<Longrightarrow> messageId y = messageId x"
  by (auto simp: tick_entry_def split: if_splits)

lemma actions_of_append: "actions_of mid (xs @ ys) = actions_of mid xs @ actions_of mid ys"
  by (simp add: actions_of_def)

lemma actions_of_Nil: "actions_of mid [] = []"
  by (simp add: actions_of_def)

lemma actions_of_other:
  "messageId x \<noteq> mid \<Longrightarrow> actions_of mid (snd (tick_entry cfg now x)) = []"
  by (auto simp: actions_of_def filter_empty_conv dest: tick_entry_tag)

lemma actions_of_own:
  "actions_of (messageId x) (snd (tick_entry cfg now x)) = map snd (snd (tick_entry cfg now x))"
proof -
  have "filter (\<lambda>e. fst e = messageId x) (snd (tick_entry cfg now x)) = snd (tick_entry cfg now x)"
    by (rule filter_True) (simp add: tick_entry_tag)
  then show ?thesis by (simp add: actions_of_def)
qed

text \<open>Ticking commutes with the projection of the table on one message id.\<close>

lemma tick_entries_filter:
  "fst (tick_entries cfg now (filter (\<lambda>x. messageId x = mid) xs))
     = filter (\<lambda>x. messageId x = mid) (fst (tick_entries cfg now xs))
   \<and> actions_of mid (snd (tick_entries cfg now (filter (\<lambda>x. messageId x = mid) xs)))
     = actions_of mid (snd (tick_entries cfg now xs))"
proof (induction xs)
  case Nil
  show ?case by simp
next
  case (Cons x xs)
  obtain r ev where te: "tick_entry cfg now x = (r, ev)" by (cases "tick_entry cfg now x")
  obtain ys evs where tes: "tick_entries cfg now xs = (ys, evs)" by (cases "tick_entries cfg now xs")
  obtain zs fvs where tef: "tick_entries cfg now (filter (\<lambda>x. messageId x = mid) xs) = (zs, fvs)"
    by (cases "tick_entries cfg now (filter (\<lambda>x. messageId x = mid) xs)")
  from Cons.IH tes tef have ih1: "zs = filter (\<lambda>x. messageId x = mid) ys"
    and ih2: "actions_of mid fvs = actions_of mid evs" by simp_all
  show ?case
  proof (cases "messageId x = mid")
    case True
    have keep: "\<And>y. r = Some y \<Longrightarrow> messageId y = mid"
      using tick_entry_keeps_id [of cfg now x] te True by simp
    from True te tes tef ih1 ih2 keep show ?thesis
      by (cases r) (simp_all add: actions_of_append)
  next
    case False
    have none: "actions_of mid ev = []"
      using actions_of_other [OF False, of cfg now] te by simp
    have keep: "\<And>y. r = Some y \<Longrightarrow> messageId y \<noteq> mid"
      using tick_entry_keeps_id [of cfg now x] te False by simp
    from False te tes tef ih1 ih2 none keep show ?thesis
      by (cases r) (simp_all add: actions_of_append)
  qed
qed

lemma Tick_project:
  "fst (Tick cfg now (project mid t)) = project mid (fst (Tick cfg now t))
   \<and> actions_of mid (snd (Tick cfg now (project mid t))) = actions_of mid (snd (Tick cfg now t))"
  using tick_entries_filter [of cfg now mid "pending t"]
  by (simp add: Tick_def project_def split_beta)

lemma Ticks_project:
  "fst (Ticks cfg ts (project mid t)) = project mid (fst (Ticks cfg ts t))
   \<and> actions_of mid (snd (Ticks cfg ts (project mid t))) = actions_of mid (snd (Ticks cfg ts t))"
proof (induction ts arbitrary: t)
  case Nil
  show ?case by simp
next
  case (Cons now ts)
  from Tick_project [of cfg now mid t] Cons.IH [of "fst (Tick cfg now t)"]
  show ?case by (simp add: split_beta actions_of_append)
qed


lemma Ticks_empty:
  "pending t = [] \<Longrightarrow> snd (Ticks cfg ts t) = [] \<and> pending (fst (Ticks cfg ts t)) = []"
proof (induction ts arbitrary: t)
  case Nil
  then show ?case by simp
next
  case (Cons now ts)
  have "pending (fst (Tick cfg now t)) = []" and "snd (Tick cfg now t) = []"
    using Cons.prems by (simp_all add: Tick_def)
  with Cons.IH [of "fst (Tick cfg now t)"] show ?case
    by (simp add: split_beta)
qed

lemma Tick_single:
  "pending t = [x] \<Longrightarrow>
     pending (fst (Tick cfg now t)) = (case fst (tick_entry cfg now x) of None \<Rightarrow> [] | Some y \<Rightarrow> [y])
     \<and> snd (Tick cfg now t) = snd (tick_entry cfg now x)"
  by (simp add: Tick_def split_beta split: option.splits)

lemma tick_entry_cases:
  obtains
    (wait) "now < deadline x" "tick_entry cfg now x = (Some x, [])"
  | (retry) "deadline x \<le> now" "0 < retriesLeft x"
      "tick_entry cfg now x =
         (Some (x\<lparr> retriesLeft := retriesLeft x - 1,
                   deadline := now + unat (mRetransmissionTimeout cfg) \<rparr>),
          [(messageId x, Transmit (payload x))])"
  | (expire) "deadline x \<le> now" "retriesLeft x = 0"
      "tick_entry cfg now x = (None, [(messageId x, Invoke (callback x) (callbackContext x) kCodeTimeout)])"
  by (cases "deadline x \<le> now"; cases "0 < retriesLeft x") (auto simp: tick_entry_def)

lemma single_safety:
  "pending t = [x] \<Longrightarrow> prefix (actions_of (messageId x) (snd (Ticks cfg ts t))) (outcome x)"
proof (induction ts arbitrary: t x)
  case Nil
  then show ?case by (simp add: actions_of_def)
next
  case (Cons now ts)
  let ?t1 = "fst (Tick cfg now t)"
  note single = Tick_single [OF Cons.prems, of cfg now]
  show ?case
  proof (cases rule: tick_entry_cases [where x = x and cfg = cfg and now = now])
    case wait
    with single have "pending ?t1 = [x]" and "snd (Tick cfg now t) = []" by simp_all
    with Cons.IH [of ?t1 x] show ?thesis
      by (simp add: split_beta actions_of_def)
  next
    case retry
    let ?y = "x\<lparr> retriesLeft := retriesLeft x - 1,
                  deadline := now + unat (mRetransmissionTimeout cfg) \<rparr>"
    from retry single have p: "pending ?t1 = [?y]"
      and e: "snd (Tick cfg now t) = [(messageId x, Transmit (payload x))]" by simp_all
    from retry have o: "outcome x = Transmit (payload x) # outcome ?y"
      by (cases "retriesLeft x") (simp_all add: outcome_def)
    from Cons.IH [OF p] have "prefix (actions_of (messageId x) (snd (Ticks cfg ts ?t1))) (outcome ?y)"
      by simp
    with e o show ?thesis
      by (simp add: split_beta actions_of_def)
  next
    case expire
    with single have p: "pending ?t1 = []"
      and e: "snd (Tick cfg now t) = [(messageId x, Invoke (callback x) (callbackContext x) kCodeTimeout)]"
      by simp_all
    from Ticks_empty [OF p, of cfg ts] e expire show ?thesis
      by (simp add: split_beta actions_of_def outcome_def)
  qed
qed

lemma single_liveness:
  "pending t = [x] \<Longrightarrow> 0 < d \<Longrightarrow>
   ((deadline x - start) div d + 1) + retriesLeft x * (unat (mRetransmissionTimeout cfg) div d + 1) \<le> K \<Longrightarrow>
     actions_of (messageId x) (snd (Ticks cfg (periodic start d K) t)) = outcome x
     \<and> pending (fst (Ticks cfg (periodic start d K) t)) = []"
proof (induction K arbitrary: t x start)
  case 0
  then show ?case by simp
next
  case (Suc K)
  let ?now = "start + d"
  let ?t1 = "fst (Tick cfg ?now t)"
  let ?m = "unat (mRetransmissionTimeout cfg) div d + 1"
  note single = Tick_single [OF Suc.prems(1), of cfg ?now]
  show ?case
  proof (cases rule: tick_entry_cases [where x = x and cfg = cfg and now = ?now])
    case wait
    with single have p: "pending ?t1 = [x]" and e: "snd (Tick cfg ?now t) = []" by simp_all
    from wait(1) have "d \<le> deadline x - start" by simp
    with \<open>0 < d\<close> have "(deadline x - start) div d = Suc ((deadline x - start - d) div d)"
      by (simp add: le_div_geq)
    moreover have "deadline x - start - d = deadline x - ?now" by simp
    ultimately have "((deadline x - ?now) div d + 1) + retriesLeft x * ?m \<le> K"
      using Suc.prems(3) by simp
    from Suc.IH [OF p \<open>0 < d\<close> this] e show ?thesis
      by (simp add: split_beta actions_of_def)
  next
    case retry
    let ?y = "x\<lparr> retriesLeft := retriesLeft x - 1,
                  deadline := ?now + unat (mRetransmissionTimeout cfg) \<rparr>"
    from retry single have p: "pending ?t1 = [?y]"
      and e: "snd (Tick cfg ?now t) = [(messageId x, Transmit (payload x))]" by simp_all
    from retry have o: "outcome x = Transmit (payload x) # outcome ?y"
      by (cases "retriesLeft x") (simp_all add: outcome_def)
    obtain r where r: "retriesLeft x = Suc r" using retry(2) by (cases "retriesLeft x") simp_all
    have "Suc r * ?m \<le> K" using Suc.prems(3) r by simp
    then have "((deadline ?y - ?now) div d + 1) + retriesLeft ?y * ?m \<le> K"
      using r by simp
    from Suc.IH [OF p \<open>0 < d\<close> this] e o show ?thesis
      by (simp add: split_beta actions_of_def)
  next
    case expire
    with single have p: "pending ?t1 = []"
      and e: "snd (Tick cfg ?now t) = [(messageId x, Invoke (callback x) (callbackContext x) kCodeTimeout)]"
      by simp_all
    from Ticks_empty [OF p, of cfg "periodic ?now d K"] e expire show ?thesis
      by (simp add: split_beta actions_of_def outcome_def)
  qed
qed

subsection \<open>The invariant of the table\<close>

lemma next_id_nonzero: "next_id m \<noteq> 0"
  by (simp add: next_id_def)

lemma tick_entries_Cons:
  "fst (tick_entries cfg now (x # xs)) =
     (case fst (tick_entry cfg now x) of
        None \<Rightarrow> fst (tick_entries cfg now xs)
      | Some y \<Rightarrow> y # fst (tick_entries cfg now xs))"
  by (simp add: split_beta)

lemma tick_entries_ids:
  "set (map messageId (fst (tick_entries cfg now xs))) \<subseteq> set (map messageId xs)"
proof (induction xs)
  case Nil
  show ?case by simp
next
  case (Cons x xs)
  show ?case
  proof (cases "fst (tick_entry cfg now x)")
    case None
    with Cons.IH show ?thesis
      by (auto simp only: tick_entries_Cons option.case list.map list.set)
  next
    case (Some y)
    then have "messageId y = messageId x"
      by (rule tick_entry_keeps_id)
    with Some Cons.IH show ?thesis
      by (auto simp only: tick_entries_Cons option.case list.map list.set)
  qed
qed

lemma tick_entries_distinct:
  "distinct (map messageId xs) \<Longrightarrow> distinct (map messageId (fst (tick_entries cfg now xs)))"
proof (induction xs)
  case Nil
  show ?case by simp
next
  case (Cons x xs)
  from Cons.prems have "messageId x \<notin> set (map messageId xs)" by simp
  with tick_entries_ids [of cfg now xs]
  have fresh: "messageId x \<notin> set (map messageId (fst (tick_entries cfg now xs)))" by blast
  from Cons have ih: "distinct (map messageId (fst (tick_entries cfg now xs)))" by simp
  show ?case
  proof (cases "fst (tick_entry cfg now x)")
    case None
    with ih show ?thesis
      by (simp only: tick_entries_Cons option.case)
  next
    case (Some y)
    then have "messageId y = messageId x"
      by (rule tick_entry_keeps_id)
    with Some ih fresh show ?thesis
      by (simp only: tick_entries_Cons option.case list.map distinct.simps not_False_eq_True simp_thms)
  qed
qed

lemma tick_entries_length: "length (fst (tick_entries cfg now xs)) \<le> length xs"
proof (induction xs)
  case Nil
  show ?case by simp
next
  case (Cons x xs)
  then show ?case
    by (cases "fst (tick_entry cfg now x)") (simp_all add: tick_entries_Cons del: tick_entries.simps)
qed

lemma inv_initial: "table_inv capacity empty_table"
  by (simp add: table_inv_def empty_table_def)

lemma inv_Insert: "table_inv capacity t \<Longrightarrow> table_inv capacity (snd (Insert capacity cfg now k p cb c t))"
  by (auto simp: table_inv_def Insert_def Let_def next_id_nonzero)

lemma inv_Resolve: "table_inv capacity t \<Longrightarrow> table_inv capacity (snd (Resolve mid t))"
proof (cases "find (\<lambda>x. messageId x = mid) (pending t)")
  case None
  assume "table_inv capacity t"
  with None show ?thesis by (simp add: Resolve_def)
next
  case (Some x)
  assume a: "table_inv capacity t"
  let ?xs = "filter (\<lambda>y. messageId y \<noteq> mid) (pending t)"
  have "length ?xs \<le> length (pending t)"
    by (rule length_filter_le)
  with a have "length ?xs \<le> capacity"
    unfolding table_inv_def by linarith
  moreover from a have "distinct (map messageId ?xs)"
    unfolding table_inv_def by (simp add: distinct_map_filter)
  moreover from a have "0 \<notin> set (map messageId ?xs)"
    unfolding table_inv_def by auto
  ultimately show ?thesis
    using a Some by (simp add: table_inv_def Resolve_def)
qed

lemma inv_Tick: "table_inv capacity t \<Longrightarrow> table_inv capacity (fst (Tick cfg now t))"
proof -
  assume a: "table_inv capacity t"
  from tick_entries_ids [of cfg now "pending t"] a
  have "0 \<notin> set (map messageId (fst (tick_entries cfg now (pending t))))"
    unfolding table_inv_def by blast
  moreover from tick_entries_length [of cfg now "pending t"] a
  have "length (fst (tick_entries cfg now (pending t))) \<le> capacity"
    unfolding table_inv_def by linarith
  moreover from a have "distinct (map messageId (fst (tick_entries cfg now (pending t))))"
    unfolding table_inv_def by (simp add: tick_entries_distinct)
  ultimately show ?thesis
    using a by (simp add: table_inv_def Tick_def split_beta)
qed

lemma reachable_inv: "reachable capacity t \<Longrightarrow> table_inv capacity t"
  by (induction rule: reachable.induct) (simp_all add: inv_initial inv_Insert inv_Resolve inv_Tick)

lemma Insert_full:
  "capacity \<le> length (pending t) \<or> nextMessageId t \<in> set (map messageId (pending t)) \<Longrightarrow>
     Insert capacity cfg now k p cb c t = (Inl ResourceExhausted, t)"
  by (auto simp: Insert_def Let_def)

lemma Insert_room:
  "\<not> (capacity \<le> length (pending t) \<or> nextMessageId t \<in> set (map messageId (pending t))) \<Longrightarrow>
     Insert capacity cfg now k p cb c t =
       (Inr (nextMessageId t),
        t\<lparr> pending := pending t @
              [\<lparr> messageId = nextMessageId t, kind = k,
                 retriesLeft = unat (mRetransmissionCount cfg),
                 deadline = now + unat (mRetransmissionTimeout cfg),
                 payload = p, callback = cb, callbackContext = c \<rparr>],
           nextMessageId := next_id (nextMessageId t) \<rparr>)"
  by (auto simp: Insert_def Let_def)

lemma next_id_unat: "unat (next_id m) = (if unat m = 65535 then 1 else unat m + 1)"
proof -
  have lt: "unat m < 65536"
    using unsigned_less [of m, where ?'a = nat] by simp
  have u: "unat (m + 1) = (unat m + 1) mod 65536"
    by (simp add: unat_word_ariths)
  show ?thesis
  proof (cases "unat m = 65535")
    case True
    with u have "unat (m + 1) = 0" by simp
    then have "m + 1 = 0" by (simp only: unat_eq_0)
    with True show ?thesis by (simp add: next_id_def)
  next
    case False
    with lt have "unat m + 1 < 65536" by simp
    with u have s: "unat (m + 1) = unat m + 1" by simp
    then have "unat (m + 1) \<noteq> 0" by simp
    then have "m + 1 \<noteq> 0" by (simp only: unat_eq_0 not_False_eq_True)
    with s False show ?thesis
      unfolding next_id_def by (simp only: if_False)
  qed
qed

subsection \<open>Retransmission and timeout\<close>

text \<open>
  The timeout code of the header is the only one with the number -1: it is none of the
  codes 0 to 3 that a gateway returns.
\<close>

lemma kCodeTimeout_value:
  "otMqttsnReturnCode_value c = - 1 \<longleftrightarrow> c = kCodeTimeout"
  by (cases c) simp_all

lemma SendRequest_Inr:
  assumes "SendRequest capacity cfg now k p cb c t = (Inr mid, t1, ev0)"
  shows "mid = nextMessageId t" and "mid \<notin> set (map messageId (pending t))"
    and "ev0 = [(mid, Transmit p)]"
    and "t1 = t\<lparr> pending := pending t @
              [\<lparr> messageId = mid, kind = k,
                 retriesLeft = unat (mRetransmissionCount cfg),
                 deadline = now + unat (mRetransmissionTimeout cfg),
                 payload = p, callback = cb, callbackContext = c \<rparr>],
           nextMessageId := next_id mid \<rparr>"
  using assms
  by (auto simp: SendRequest_def Insert_def Let_def split: if_splits)

lemma table_a_eval:
  "table_a = \<lparr> pending = [\<lparr> messageId = 1, kind = Subscribe, retriesLeft = 3, deadline = 1150,
                             payload = [9], callback = 33, callbackContext = 44 \<rparr>],
               nextMessageId = 2 \<rparr>"
  by (simp add: table_a_def Insert_def empty_table_def cfg0_def next_id_def)

lemma table_b_eval:
  "table_b = \<lparr> pending = [\<lparr> messageId = 1, kind = Subscribe, retriesLeft = 3, deadline = 1150,
                             payload = [9], callback = 33, callbackContext = 44 \<rparr>,
                          \<lparr> messageId = 2, kind = Register, retriesLeft = 3, deadline = 1250,
                             payload = [1, 2, 3], callback = 11, callbackContext = 22 \<rparr>],
               nextMessageId = 3 \<rparr>"
  by (simp add: table_b_def table_a_eval Insert_def cfg0_def next_id_def)

lemma request_b:
  "SendRequest 2 cfg0 1000 Register [1, 2, 3] 11 22 table_a
     = (Inr 2, table_b, [(2, Transmit [1, 2, 3])])"
  by (simp add: SendRequest_def table_b_def table_a_eval Insert_def cfg0_def next_id_def)

text \<open>Eleven ticks of 100 ms are one too few for the fourth transmission to time out.\<close>

lemma eleven_ticks:
  "actions_of 2 ([(2, Transmit [1, 2, 3])] @ snd (Ticks cfg0 (periodic 1000 100 11) table_b))
     = [Transmit [1, 2, 3], Transmit [1, 2, 3], Transmit [1, 2, 3], Transmit [1, 2, 3]]"
  by code_simp

text \<open>
  Claim C1. A request (Connect, Register or Subscribe) has been sent and its transaction is
  pending; no response to it ever arrives, and \<open>Tick\<close> is called again and again.
  Whatever the times of the ticks, what has happened for this transaction at any moment is
  an initial part of: \<open>mRetransmissionCount + 1\<close> transmissions of its payload, then
  one invocation of its callback with \<^verbatim>\<open>kCodeTimeout\<close>. So the callback never
  comes before the last retransmission, never twice, and nothing is sent after it. With
  ticks of a period \<open>d > 0\<close>, once
  \<open>(mRetransmissionCount + 1) * (mRetransmissionTimeout div d + 1)\<close> of them have
  passed, all of it has happened and the transaction is no longer in the table.
\<close>

theorem Tick_retransmits_until_timeout:
  assumes req: "SendRequest capacity cfg now k p cb c t = (Inr mid, t1, ev0)"
    and d: "0 < d"
  shows "(\<forall>ts. prefix (actions_of mid (ev0 @ snd (Ticks cfg ts t1)))
                 (replicate (unat (mRetransmissionCount cfg) + 1) (Transmit p)
                    @ [Invoke cb c kCodeTimeout]))
       \<and> (\<forall>K. (unat (mRetransmissionCount cfg) + 1) * (unat (mRetransmissionTimeout cfg) div d + 1) \<le> K \<longrightarrow>
             actions_of mid (ev0 @ snd (Ticks cfg (periodic now d K) t1))
               = replicate (unat (mRetransmissionCount cfg) + 1) (Transmit p)
                   @ [Invoke cb c kCodeTimeout]
             \<and> mid \<notin> set (map messageId (pending (fst (Ticks cfg (periodic now d K) t1)))))"
proof -
  let ?x = "\<lparr> messageId = mid, kind = k,
             retriesLeft = unat (mRetransmissionCount cfg),
             deadline = now + unat (mRetransmissionTimeout cfg),
             payload = p, callback = cb, callbackContext = c \<rparr>"
  let ?full = "replicate (unat (mRetransmissionCount cfg) + 1) (Transmit p) @ [Invoke cb c kCodeTimeout]"
  note r = SendRequest_Inr [OF req]
  from r(2) have "filter (\<lambda>x. messageId x = mid) (pending t) = []"
    by (auto simp: filter_empty_conv)
  with r(4) have single: "pending (project mid t1) = [?x]"
    by (simp add: project_def)
  have full: "?full = Transmit p # outcome ?x"
    by (simp add: outcome_def)
  have first: "\<And>evs. actions_of mid (ev0 @ evs) = Transmit p # actions_of mid evs"
    using r(3) by (simp add: actions_of_def)
  have proj: "\<And>ts. actions_of mid (snd (Ticks cfg ts t1)) = actions_of mid (snd (Ticks cfg ts (project mid t1)))"
    using Ticks_project [of cfg _ mid t1] by simp
  have safe: "\<And>ts. prefix (actions_of mid (ev0 @ snd (Ticks cfg ts t1))) ?full"
  proof -
    fix ts
    from single_safety [OF single, of cfg ts]
    have "prefix (actions_of mid (snd (Ticks cfg ts (project mid t1)))) (outcome ?x)" by simp
    then show "prefix (actions_of mid (ev0 @ snd (Ticks cfg ts t1))) ?full"
      by (simp only: first proj full Cons_prefix_Cons simp_thms)
  qed
  have live: "\<And>K. (unat (mRetransmissionCount cfg) + 1) * (unat (mRetransmissionTimeout cfg) div d + 1) \<le> K \<Longrightarrow>
             actions_of mid (ev0 @ snd (Ticks cfg (periodic now d K) t1)) = ?full
             \<and> mid \<notin> set (map messageId (pending (fst (Ticks cfg (periodic now d K) t1))))"
  proof -
    fix K
    assume "(unat (mRetransmissionCount cfg) + 1) * (unat (mRetransmissionTimeout cfg) div d + 1) \<le> K"
    then have "((deadline ?x - now) div d + 1)
                 + retriesLeft ?x * (unat (mRetransmissionTimeout cfg) div d + 1) \<le> K"
      by simp
    from single_liveness [OF single d this]
    have a: "actions_of mid (snd (Ticks cfg (periodic now d K) (project mid t1))) = outcome ?x"
      and e: "pending (fst (Ticks cfg (periodic now d K) (project mid t1))) = []" by simp_all
    from e Ticks_project [of cfg "periodic now d K" mid t1]
    have "filter (\<lambda>x. messageId x = mid) (pending (fst (Ticks cfg (periodic now d K) t1))) = []"
      by (simp add: project_def)
    then have "mid \<notin> set (map messageId (pending (fst (Ticks cfg (periodic now d K) t1))))"
      by (auto simp: filter_empty_conv)
    moreover from a have "actions_of mid (ev0 @ snd (Ticks cfg (periodic now d K) t1)) = ?full"
      by (simp only: first proj full)
    ultimately show "actions_of mid (ev0 @ snd (Ticks cfg (periodic now d K) t1)) = ?full
             \<and> mid \<notin> set (map messageId (pending (fst (Ticks cfg (periodic now d K) t1))))"
      by simp
  qed
  from safe live show ?thesis by blast
qed

theorem Tick_retransmits_until_timeout_witness:
  "SendRequest 2 cfg0 1000 Register [1, 2, 3] 11 22 table_a
     = (Inr 2, table_b, [(2, Transmit [1, 2, 3])])
   \<and> actions_of 2 ([(2, Transmit [1, 2, 3])] @ snd (Ticks cfg0 (periodic 1000 100 11) table_b))
       = [Transmit [1, 2, 3], Transmit [1, 2, 3], Transmit [1, 2, 3], Transmit [1, 2, 3]]
   \<and> actions_of 2 ([(2, Transmit [1, 2, 3])] @ snd (Ticks cfg0 (periodic 1000 100 12) table_b))
       = [Transmit [1, 2, 3], Transmit [1, 2, 3], Transmit [1, 2, 3], Transmit [1, 2, 3],
          Invoke 11 22 kCodeTimeout]
   \<and> 2 \<notin> set (map messageId (pending (fst (Ticks cfg0 (periodic 1000 100 12) table_b))))"
proof -
  have d: "(0::nat) < 100" by simp
  have b: "(unat (mRetransmissionCount cfg0) + 1) * (unat (mRetransmissionTimeout cfg0) div 100 + 1) \<le> 12"
    by (simp add: cfg0_def)
  have c: "unat (mRetransmissionCount cfg0) + 1 = Suc (Suc (Suc (Suc 0)))"
    by (simp add: cfg0_def)
  have n: "replicate (unat (mRetransmissionCount cfg0) + 1) (Transmit [1, 2, 3])
     = [Transmit [1, 2, 3], Transmit [1, 2, 3], Transmit [1, 2, 3], Transmit [1, 2, 3]]"
    by (simp only: c replicate.simps)
  from Tick_retransmits_until_timeout [OF request_b d] b
  have "actions_of 2 ([(2, Transmit [1, 2, 3])] @ snd (Ticks cfg0 (periodic 1000 100 12) table_b))
               = replicate (unat (mRetransmissionCount cfg0) + 1) (Transmit [1, 2, 3])
                   @ [Invoke 11 22 kCodeTimeout]
             \<and> 2 \<notin> set (map messageId (pending (fst (Ticks cfg0 (periodic 1000 100 12) table_b))))"
    by blast
  with request_b n eleven_ticks show ?thesis by simp
qed

subsection \<open>The counter can come round to a pending id\<close>

text \<open>
  While one transaction stays pending, a request that is inserted and resolved at once
  moves the counter on by one and leaves the table as it was.
\<close>

lemma cycle_step:
  assumes r: "reachable capacity \<lparr> pending = [entry1], nextMessageId = m \<rparr>"
    and m: "m \<noteq> 1" and cap: "2 \<le> capacity"
  shows "reachable capacity \<lparr> pending = [entry1], nextMessageId = next_id m \<rparr>"
proof -
  let ?t = "\<lparr> pending = [entry1], nextMessageId = m \<rparr>"
  let ?y = "\<lparr> messageId = m, kind = Register, retriesLeft = unat (mRetransmissionCount cfg0),
             deadline = 0 + unat (mRetransmissionTimeout cfg0), payload = [], callback = 0,
             callbackContext = 0 \<rparr>"
  let ?t1 = "\<lparr> pending = [entry1, ?y], nextMessageId = next_id m \<rparr>"
  from m cap have "snd (Insert capacity cfg0 0 Register [] 0 0 ?t) = ?t1"
    by (simp add: Insert_def entry1_def)
  with reachable.insert [OF r, of cfg0 0 Register "[]" 0 0]
  have r1: "reachable capacity ?t1" by simp
  from m have "snd (Resolve m ?t1) = \<lparr> pending = [entry1], nextMessageId = next_id m \<rparr>"
    by (simp add: Resolve_def entry1_def)
  with reachable.resolve [OF r1, of m] show ?thesis by simp
qed

lemma cycle_from_2:
  assumes cap: "2 \<le> capacity"
  shows "2 \<le> n \<Longrightarrow> n \<le> 65535 \<Longrightarrow> unat m = n \<Longrightarrow>
          reachable capacity \<lparr> pending = [entry1], nextMessageId = m \<rparr>"
proof (induction n arbitrary: m)
  case 0
  then show ?case by simp
next
  case (Suc n)
  show ?case
  proof (cases "n = 1")
    case True
    with Suc.prems have "unat m = unat (2 :: 16 word)" by simp
    then have m2: "m = 2" by (simp only: word_unat_eq_iff)
    from cap have "snd (Insert capacity cfg0 1000 Connect [4] 11 22 empty_table)
        = \<lparr> pending = [entry1], nextMessageId = 2 \<rparr>"
      by (simp add: Insert_def empty_table_def entry1_def cfg0_def next_id_def)
    with reachable.insert [OF reachable.initial, of capacity cfg0 1000 Connect "[4]" 11 22] m2
    show ?thesis by simp
  next
    case False
    with Suc.prems have n2: "2 \<le> n" and n5: "n \<le> 65535" by simp_all
    from Suc.prems have "m \<noteq> 0" by auto
    then have "unat (m - 1) = unat m - 1" by (rule unat_minus_one)
    with Suc.prems have u: "unat (m - 1) = n" by simp
    from Suc.IH [OF n2 n5 u]
    have r: "reachable capacity \<lparr> pending = [entry1], nextMessageId = m - 1 \<rparr>" .
    from u n2 have "unat (m - 1) \<noteq> unat (1 :: 16 word)" by simp
    then have ne: "m - 1 \<noteq> 1" by (simp only: word_unat_eq_iff not_False_eq_True)
    from u Suc.prems have "unat (next_id (m - 1)) = unat m"
      by (simp add: next_id_unat)
    then have "next_id (m - 1) = m" by (simp only: word_unat_eq_iff)
    with cycle_step [OF r ne cap] show ?thesis by simp
  qed
qed

text \<open>
  After 65534 such requests the counter has wrapped round, past zero, to the id of the
  transaction that is still pending: the collision that \<open>Insert\<close> checks for is reachable.
\<close>

lemma collision_reachable:
  assumes cap: "2 \<le> capacity"
  shows "reachable capacity table_c"
proof -
  have "unat (65535 :: 16 word) = 65535" by simp
  from cycle_from_2 [OF cap _ _ this]
  have r: "reachable capacity \<lparr> pending = [entry1], nextMessageId = 65535 \<rparr>" by simp
  have "next_id (65535 :: 16 word) = 1" by (simp add: next_id_def)
  with cycle_step [OF r _ cap] show ?thesis by (simp add: table_c_def)
qed

lemma table_b_reachable: "reachable 2 table_b"
  unfolding table_b_def table_a_def
  by (intro reachable.insert reachable.initial)

text \<open>
  Claim C5. In every reachable state of the Transaction Table the pending transactions
  have pairwise distinct message ids, none of them zero, and there are at most
  \<open>capacity\<close> of them. An \<open>Insert\<close> into a full table, or one whose newly
  allocated id is that of a pending transaction, returns \<open>ResourceExhausted\<close> and
  leaves the table as it was: nothing is evicted. Any other \<open>Insert\<close> returns the
  value of the counter as the message id, appends the new transaction behind the pending
  ones, and moves the 16-bit counter on by one, from 65535 round to 1, skipping zero.
\<close>

theorem table_ids_distinct_and_bounded:
  assumes "reachable capacity t"
  shows "distinct (map messageId (pending t))
       \<and> length (pending t) \<le> capacity
       \<and> 0 \<notin> set (map messageId (pending t))
       \<and> (capacity \<le> length (pending t) \<or> nextMessageId t \<in> set (map messageId (pending t)) \<longrightarrow>
            Insert capacity cfg now k p cb c t = (Inl ResourceExhausted, t))
       \<and> (length (pending t) < capacity \<and> nextMessageId t \<notin> set (map messageId (pending t)) \<longrightarrow>
            fst (Insert capacity cfg now k p cb c t) = Inr (nextMessageId t)
            \<and> (\<exists>x. pending (snd (Insert capacity cfg now k p cb c t)) = pending t @ [x]
                   \<and> messageId x = nextMessageId t)
            \<and> unat (nextMessageId (snd (Insert capacity cfg now k p cb c t)))
                = (if unat (nextMessageId t) = 65535 then 1 else unat (nextMessageId t) + 1))"
proof -
  from assms have inv: "table_inv capacity t"
    by (rule reachable_inv)
  have full: "capacity \<le> length (pending t) \<or> nextMessageId t \<in> set (map messageId (pending t)) \<longrightarrow>
            Insert capacity cfg now k p cb c t = (Inl ResourceExhausted, t)"
    using Insert_full [of capacity t cfg now k p cb c] by blast
  have room: "length (pending t) < capacity \<and> nextMessageId t \<notin> set (map messageId (pending t)) \<longrightarrow>
            fst (Insert capacity cfg now k p cb c t) = Inr (nextMessageId t)
            \<and> (\<exists>x. pending (snd (Insert capacity cfg now k p cb c t)) = pending t @ [x]
                   \<and> messageId x = nextMessageId t)
            \<and> unat (nextMessageId (snd (Insert capacity cfg now k p cb c t)))
                = (if unat (nextMessageId t) = 65535 then 1 else unat (nextMessageId t) + 1)"
  proof
    assume a: "length (pending t) < capacity \<and> nextMessageId t \<notin> set (map messageId (pending t))"
    then have "\<not> (capacity \<le> length (pending t) \<or> nextMessageId t \<in> set (map messageId (pending t)))"
      by auto
    from Insert_room [OF this, of cfg now k p cb c]
    show "fst (Insert capacity cfg now k p cb c t) = Inr (nextMessageId t)
            \<and> (\<exists>x. pending (snd (Insert capacity cfg now k p cb c t)) = pending t @ [x]
                   \<and> messageId x = nextMessageId t)
            \<and> unat (nextMessageId (snd (Insert capacity cfg now k p cb c t)))
                = (if unat (nextMessageId t) = 65535 then 1 else unat (nextMessageId t) + 1)"
      by (simp add: next_id_unat)
  qed
  from inv full room show ?thesis
    unfolding table_inv_def by blast
qed

theorem table_ids_distinct_and_bounded_witness:
  "reachable 2 table_b
   \<and> map messageId (pending table_b) = [1, 2]
   \<and> Insert 2 cfg0 1100 Connect [7] 55 66 table_b = (Inl ResourceExhausted, table_b)
   \<and> reachable 2 table_c
   \<and> length (pending table_c) < 2
   \<and> nextMessageId table_c \<in> set (map messageId (pending table_c))
   \<and> Insert 2 cfg0 1100 Connect [7] 55 66 table_c = (Inl ResourceExhausted, table_c)"
proof -
  have two: "(2::nat) \<le> 2" by simp
  have full: "2 \<le> length (pending table_b)"
    by (simp add: table_b_eval)
  have ids: "map messageId (pending table_b) = [1, 2]"
    by (simp add: table_b_eval)
  have room: "length (pending table_c) < 2"
    by (simp add: table_c_def)
  have hit: "nextMessageId table_c \<in> set (map messageId (pending table_c))"
    by (simp add: table_c_def entry1_def)
  from table_ids_distinct_and_bounded [OF table_b_reachable, of cfg0 1100 Connect "[7]" 55 66]
       table_ids_distinct_and_bounded [OF collision_reachable [OF two], of cfg0 1100 Connect "[7]" 55 66]
       table_b_reachable collision_reachable [OF two] full ids room hit
  show ?thesis by simp
qed

end
